theory Spec2Isabelle
  imports Complex_Main "HOL-Library.Word"
begin

section \<open>JavaScript strings\<close>

text \<open>
  A JavaScript string is a sequence of UTF-16 code units. The empty string is the empty
  list; \<open>js\<close> writes an ASCII literal as code units.
\<close>

type_synonym jschar = "16 word"
type_synonym jsstring = "jschar list"

definition js :: "string \<Rightarrow> jsstring" where
  "js s = map of_char s"

definition newline :: jschar where
  "newline = 0x0A"

text \<open>
  \<open>String.prototype.trim\<close> removes the code units of ECMAScript's WhiteSpace and
  LineTerminator productions from both ends.
\<close>

definition is_whitespace :: "jschar \<Rightarrow> bool" where
  "is_whitespace c =
     (c = 0x0009 \<or> c = 0x000A \<or> c = 0x000B \<or> c = 0x000C \<or> c = 0x000D \<or> c = 0x0020
      \<or> c = 0x00A0 \<or> c = 0x1680 \<or> (0x2000 \<le> c \<and> c \<le> 0x200A)
      \<or> c = 0x2028 \<or> c = 0x2029 \<or> c = 0x202F \<or> c = 0x205F \<or> c = 0x3000 \<or> c = 0xFEFF)"

definition trim :: "jsstring \<Rightarrow> jsstring" where
  "trim s = rev (dropWhile is_whitespace (rev (dropWhile is_whitespace s)))"

text \<open>
  \<open>s.split('\n')\<close>: the maximal newline-free segments of \<open>s\<close>, in order; the
  result always has at least one element (\<open>''.split('\n')\<close> is \<open>['']\<close>).
\<close>

fun split_newline :: "jsstring \<Rightarrow> jsstring list" where
  "split_newline [] = [[]]"
| "split_newline (c # cs) =
     (if c = newline then [] # split_newline cs
      else (case split_newline cs of
              [] \<Rightarrow> [[c]]
            | seg # segs \<Rightarrow> (c # seg) # segs))"

text \<open>
  \<open>lines.pop() || ''\<close>: remove and return the last element of the array; an empty array
  gives \<open>undefined\<close>, which \<open>||\<close> replaces by the empty string (as it does the empty
  string itself).
\<close>

definition pop_or_empty :: "jsstring list \<Rightarrow> jsstring \<times> jsstring list" where
  "pop_or_empty lines = (if lines = [] then ([], []) else (last lines, butlast lines))"

section \<open>Buffers and their decoding\<close>

text \<open>
  The socket's \<open>data\<close> event delivers a \<open>Buffer\<close> of bytes, which the callback turns
  into text with \<open>data.toString()\<close>; the standard input, after
  \<open>process.stdin.setEncoding('utf8')\<close>, delivers text. Both decode UTF-8 with the
  decoder below (the encoding standard's): it keeps the code point under construction, the
  number of continuation bytes seen and needed, and the range allowed for the next byte;
  a byte sequence that is not well formed gives U+FFFD.
\<close>

type_synonym byte = "8 word"

definition ascii :: "string \<Rightarrow> byte list" where
  "ascii s = map of_char s"

record utf8_decoder =
  code_point :: nat
  bytes_seen :: nat
  bytes_needed :: nat
  lower_boundary :: byte
  upper_boundary :: byte

definition utf8_start :: utf8_decoder where
  "utf8_start =
     \<lparr> code_point = 0, bytes_seen = 0, bytes_needed = 0,
       lower_boundary = 0x80, upper_boundary = 0xBF \<rparr>"

text \<open>A code point as UTF-16 code units: itself, or a surrogate pair.\<close>

definition utf16 :: "nat \<Rightarrow> jsstring" where
  "utf16 cp =
     (if cp < 0x10000 then [of_nat cp]
      else [of_nat (0xD800 + (cp - 0x10000) div 0x400),
            of_nat (0xDC00 + (cp - 0x10000) mod 0x400)])"

text \<open>A byte read when no sequence is under way.\<close>

definition utf8_first :: "byte \<Rightarrow> utf8_decoder \<times> jsstring" where
  "utf8_first b =
     (if b \<le> 0x7F then (utf8_start, [ucast b])
      else if 0xC2 \<le> b \<and> b \<le> 0xDF then
        (utf8_start \<lparr> bytes_needed := 1, code_point := unat b mod 32 \<rparr>, [])
      else if 0xE0 \<le> b \<and> b \<le> 0xEF then
        (utf8_start \<lparr> bytes_needed := 2, code_point := unat b mod 16,
                      lower_boundary := (if b = 0xE0 then 0xA0 else 0x80),
                      upper_boundary := (if b = 0xED then 0x9F else 0xBF) \<rparr>, [])
      else if 0xF0 \<le> b \<and> b \<le> 0xF4 then
        (utf8_start \<lparr> bytes_needed := 3, code_point := unat b mod 8,
                      lower_boundary := (if b = 0xF0 then 0x90 else 0x80),
                      upper_boundary := (if b = 0xF4 then 0x8F else 0xBF) \<rparr>, [])
      else (utf8_start, [0xFFFD]))"

definition utf8_step :: "utf8_decoder \<Rightarrow> byte \<Rightarrow> utf8_decoder \<times> jsstring" where
  "utf8_step d b =
     (if bytes_needed d = 0 then utf8_first b
      else if \<not> (lower_boundary d \<le> b \<and> b \<le> upper_boundary d) then
        (let (d', decoded) = utf8_first b in (d', 0xFFFD # decoded))
      else
        (let cp = code_point d * 64 + unat b mod 64;
             seen = bytes_seen d + 1
         in if seen \<noteq> bytes_needed d then
              (d \<lparr> code_point := cp, bytes_seen := seen,
                   lower_boundary := 0x80, upper_boundary := 0xBF \<rparr>, [])
            else (utf8_start, utf16 cp)))"

fun utf8_run :: "utf8_decoder \<Rightarrow> byte list \<Rightarrow> utf8_decoder \<times> jsstring" where
  "utf8_run d [] = (d, [])"
| "utf8_run d (b # bs) =
     (let (d1, decoded1) = utf8_step d b;
          (d2, decoded2) = utf8_run d1 bs
      in (d2, decoded1 @ decoded2))"

text \<open>
  \<open>Buffer.prototype.toString()\<close> decodes the buffer on its own: a sequence cut short by
  the end of the buffer gives U+FFFD.
\<close>

definition Buffer_toString :: "byte list \<Rightarrow> jsstring" where
  "Buffer_toString data =
     (let (d, decoded) = utf8_run utf8_start data
      in if bytes_needed d \<noteq> 0 then decoded @ [0xFFFD] else decoded)"

text \<open>
  The chunks a stream with \<open>setEncoding('utf8')\<close> hands to its \<open>data\<close> listeners for
  the buffers it receives: the decoder is kept from one buffer to the next, so a sequence
  cut short by the end of a buffer is completed by the next one; a buffer that decodes to
  nothing emits no event, and what is incomplete at the end of the stream is flushed.
\<close>

fun stdin_chunks :: "utf8_decoder \<Rightarrow> byte list list \<Rightarrow> jsstring list" where
  "stdin_chunks d [] = (if bytes_needed d \<noteq> 0 then [[0xFFFD]] else [])"
| "stdin_chunks d (data # rest) =
     (let (d', decoded) = utf8_run d data
      in if decoded = [] then stdin_chunks d' rest else decoded # stdin_chunks d' rest)"

section \<open>The message framer: \<open>MCPServer.parseMessages\<close>\<close>

record messages =
  parsed :: "jsstring list"
  remaining :: jsstring

text \<open>The loop of \<open>parseMessages\<close>: push the trimmed line when it is not empty.\<close>

fun push_trimmed :: "jsstring list \<Rightarrow> jsstring list \<Rightarrow> jsstring list" where
  "push_trimmed acc [] = acc"
| "push_trimmed acc (line # lines) =
     (let trimmed = trim line
      in if trimmed \<noteq> [] then push_trimmed (acc @ [trimmed]) lines
         else push_trimmed acc lines)"

definition parseMessages :: "jsstring \<Rightarrow> messages" where
  "parseMessages buffer =
     (let (remaining, lines) = pop_or_empty (split_newline buffer)
      in \<lparr> parsed = push_trimmed [] lines, remaining = remaining \<rparr>)"

text \<open>
  One \<open>data\<close> event seen by the framer alone: the retained buffer grows by the chunk, is
  framed, and the remainder becomes the new buffer. \<open>feed\<close> runs a sequence of chunks and
  collects the emitted lines in order.
\<close>

definition feed_chunk :: "jsstring \<Rightarrow> jsstring \<Rightarrow> jsstring list \<times> jsstring" where
  "feed_chunk buffer chunk =
     (let messages = parseMessages (buffer @ chunk)
      in (parsed messages, remaining messages))"

fun feed :: "jsstring \<Rightarrow> jsstring list \<Rightarrow> jsstring list \<times> jsstring" where
  "feed buffer [] = ([], buffer)"
| "feed buffer (chunk # chunks) =
     (let (emitted, buffer') = feed_chunk buffer chunk;
          (rest, final) = feed buffer' chunks
      in (emitted @ rest, final))"

text \<open>
  The specification's reference: the newline-delimited lines of a text are its segments
  that are terminated by a newline, in order (an unterminated tail is not a line); the
  framer is to emit those that are non-empty after trimming.
\<close>

fun newline_delimited_lines :: "jsstring \<Rightarrow> jsstring \<Rightarrow> jsstring list" where
  "newline_delimited_lines cur [] = []"
| "newline_delimited_lines cur (c # cs) =
     (if c = newline then cur # newline_delimited_lines [] cs
      else newline_delimited_lines (cur @ [c]) cs)"

definition nonempty_trimmed_lines :: "jsstring \<Rightarrow> jsstring list" where
  "nonempty_trimmed_lines text =
     filter (\<lambda>l. l \<noteq> []) (map trim (newline_delimited_lines [] text))"

section \<open>Requests, responses and the runtime\<close>

text \<open>The values \<open>JSON.parse\<close> returns.\<close>

datatype json =
    JNull
  | JBool bool
  | JNumber real
  | JString jsstring
  | JArray "json list"
  | JObject "(jsstring \<times> json) list"

text \<open>
  Modelled from the spec: the declarations of \<open>MCPRequest\<close>, \<open>MCPResponse\<close> and
  \<open>MCPErrorCodes\<close> (\<open>./types.js\<close>) are not among the sources. A Request is an object
  \<open>{jsonrpc, id, method, params}\<close>; a Notification is a request-shaped message with no
  \<open>id\<close>; a Response is \<open>{jsonrpc, id, result}\<close> or
  \<open>{jsonrpc, id, error: {code, message, data?}}\<close>.
\<close>

record MCPError =
  code :: int
  message :: jsstring
  error_data :: "json option"

record MCPResponse =
  jsonrpc :: jsstring
  id' :: json
  result :: "json option"
  error :: "MCPError option"

fun field :: "jsstring \<Rightarrow> json \<Rightarrow> json option" where
  "field name (JObject members) = map_of members name"
| "field name _ = None"

definition request_id :: "json \<Rightarrow> json option" where
  "request_id request = field (js ''id'') request"

definition is_notification :: "json \<Rightarrow> bool" where
  "is_notification request =
     (field (js ''method'') request \<noteq> None \<and> field (js ''id'') request = None)"

text \<open>
  What the server code calls but does not define: \<open>JSON.parse\<close> (\<open>None\<close> when it
  throws a SyntaxError), the handler set created by \<open>createHandlers\<close> (\<open>./handlers.js\<close>,
  not among the sources) with its own state \<open>'h\<close>, and the constant
  \<open>MCPErrorCodes.PARSE_ERROR\<close>. The promise \<open>handleRequest\<close> returns resolves with a
  response, rejects, or is still pending when the transport stops (the socket is closed,
  or the input ends and \<open>process.exit\<close> is called).
\<close>

datatype handled = Responds MCPResponse | Fails | Pends

record 'h runtime =
  JSON_parse :: "jsstring \<Rightarrow> json option"
  handleRequest :: "'h \<Rightarrow> json \<Rightarrow> handled \<times> 'h"
  PARSE_ERROR :: int

datatype thrown = SyntaxError | HandlerFailure

text \<open>
  A transport's state: the framer's buffer, the handler set's state, and the output
  channel. An element \<open>r\<close> of \<open>written\<close> is one call
  \<open>write(JSON.stringify(r) + '\n')\<close>, in the order of the calls. A promise that
  settles is taken to settle before the next event is handled, so the callbacks do not
  interleave; a callback whose promise stays pending never resumes: it writes nothing for
  that message and dispatches none of the messages after it.
\<close>

record 'h transport =
  buffer :: jsstring
  handlers :: 'h
  written :: "MCPResponse list"

definition errorResponse :: "'h runtime \<Rightarrow> MCPResponse" where
  "errorResponse rt =
     \<lparr> jsonrpc = js ''2.0'', id' = JNull, result = None,
       error = Some \<lparr> code = PARSE_ERROR rt, message = js ''Invalid JSON'', error_data = None \<rparr> \<rparr>"

section \<open>The socket transport: \<open>MCPServer.handleConnection\<close>\<close>

text \<open>
  The body of the \<open>try\<close> block, up to the response it is about to write: what it
  throws, or the response; \<open>None\<close> when it stays suspended at the \<open>await\<close>.
\<close>

definition handleConnection_try ::
  "'h runtime \<Rightarrow> 'h \<Rightarrow> jsstring \<Rightarrow> (thrown + MCPResponse) option \<times> 'h" where
  "handleConnection_try rt h msg =
     (case JSON_parse rt msg of
        None \<Rightarrow> (Some (Inl SyntaxError), h)
      | Some request \<Rightarrow>
          (case handleRequest rt h request of
             (Pends, h') \<Rightarrow> (None, h')
           | (Fails, h') \<Rightarrow> (Some (Inl HandlerFailure), h')
           | (Responds response, h') \<Rightarrow> (Some (Inr response), h')))"

text \<open>One iteration of the loop over \<open>messages.parsed\<close>: \<open>try\<close> and \<open>catch\<close>.\<close>

definition handleConnection_message ::
  "'h runtime \<Rightarrow> 'h transport \<Rightarrow> jsstring \<Rightarrow> 'h transport" where
  "handleConnection_message rt st msg =
     (case handleConnection_try rt (handlers st) msg of
        (Some (Inr response), h') \<Rightarrow> st\<lparr> handlers := h', written := written st @ [response] \<rparr>
      | (Some (Inl caught), h') \<Rightarrow>
          st\<lparr> handlers := h', written := written st @ [errorResponse rt] \<rparr>
      | (None, h') \<Rightarrow> st\<lparr> handlers := h' \<rparr>)"

text \<open>The loop: it goes on to the next message unless this one left it suspended.\<close>

fun handleConnection_loop ::
  "'h runtime \<Rightarrow> 'h transport \<Rightarrow> jsstring list \<Rightarrow> 'h transport" where
  "handleConnection_loop rt st [] = st"
| "handleConnection_loop rt st (msg # rest) =
     (if fst (handleConnection_try rt (handlers st) msg) = None
      then handleConnection_message rt st msg
      else handleConnection_loop rt (handleConnection_message rt st msg) rest)"

text \<open>The \<open>data\<close> callback, on the \<open>Buffer\<close> received.\<close>

definition handleConnection_data ::
  "'h runtime \<Rightarrow> 'h transport \<Rightarrow> byte list \<Rightarrow> 'h transport" where
  "handleConnection_data rt st received =
     (let buffer1 = buffer st @ Buffer_toString received;
          messages = parseMessages buffer1
      in handleConnection_loop rt (st\<lparr> buffer := remaining messages \<rparr>) (parsed messages))"

fun handleConnection_run ::
  "'h runtime \<Rightarrow> 'h transport \<Rightarrow> byte list list \<Rightarrow> 'h transport" where
  "handleConnection_run rt st [] = st"
| "handleConnection_run rt st (received # rest) =
     handleConnection_run rt (handleConnection_data rt st received) rest"

section \<open>The standard-stream transport: \<open>MCPServer.startStdio\<close>\<close>

definition startStdio_try ::
  "'h runtime \<Rightarrow> 'h \<Rightarrow> jsstring \<Rightarrow> (thrown + MCPResponse) option \<times> 'h" where
  "startStdio_try rt h trimmed =
     (case JSON_parse rt trimmed of
        None \<Rightarrow> (Some (Inl SyntaxError), h)
      | Some request \<Rightarrow>
          (case handleRequest rt h request of
             (Pends, h') \<Rightarrow> (None, h')
           | (Fails, h') \<Rightarrow> (Some (Inl HandlerFailure), h')
           | (Responds response, h') \<Rightarrow> (Some (Inr response), h')))"

text \<open>The \<open>try\<close> and \<open>catch\<close> of one non-empty trimmed line.\<close>

definition startStdio_message ::
  "'h runtime \<Rightarrow> 'h transport \<Rightarrow> jsstring \<Rightarrow> 'h transport" where
  "startStdio_message rt st trimmed =
     (case startStdio_try rt (handlers st) trimmed of
        (Some (Inr response), h') \<Rightarrow> st\<lparr> handlers := h', written := written st @ [response] \<rparr>
      | (Some (Inl caught), h') \<Rightarrow>
          st\<lparr> handlers := h', written := written st @ [errorResponse rt] \<rparr>
      | (None, h') \<Rightarrow> st\<lparr> handlers := h' \<rparr>)"

text \<open>One iteration of the loop over \<open>lines\<close>: an empty trimmed line is skipped.\<close>

definition startStdio_line ::
  "'h runtime \<Rightarrow> 'h transport \<Rightarrow> jsstring \<Rightarrow> 'h transport" where
  "startStdio_line rt st line =
     (let trimmed = trim line
      in if trimmed = [] then st else startStdio_message rt st trimmed)"

text \<open>The loop: it goes on to the next line unless this one left it suspended.\<close>

fun startStdio_loop ::
  "'h runtime \<Rightarrow> 'h transport \<Rightarrow> jsstring list \<Rightarrow> 'h transport" where
  "startStdio_loop rt st [] = st"
| "startStdio_loop rt st (line # rest) =
     (if trim line \<noteq> [] \<and> fst (startStdio_try rt (handlers st) (trim line)) = None
      then startStdio_line rt st line
      else startStdio_loop rt (startStdio_line rt st line) rest)"

text \<open>The \<open>data\<close> callback, on the text received.\<close>

definition startStdio_data ::
  "'h runtime \<Rightarrow> 'h transport \<Rightarrow> jsstring \<Rightarrow> 'h transport" where
  "startStdio_data rt st chunk =
     (let buffer1 = buffer st @ chunk;
          (last_line, lines) = pop_or_empty (split_newline buffer1)
      in startStdio_loop rt (st\<lparr> buffer := last_line \<rparr>) lines)"

fun startStdio_run ::
  "'h runtime \<Rightarrow> 'h transport \<Rightarrow> jsstring list \<Rightarrow> 'h transport" where
  "startStdio_run rt st [] = st"
| "startStdio_run rt st (chunk # rest) = startStdio_run rt (startStdio_data rt st chunk) rest"

text \<open>Both transports start with an empty buffer and nothing written.\<close>

definition initial :: "'h \<Rightarrow> 'h transport" where
  "initial h = \<lparr> buffer = [], handlers = h, written = [] \<rparr>"

section \<open>The query cache: \<open>QueryCache\<close>\<close>

text \<open>
  A value of the cache's type parameter \<open>T\<close>, which \<open>undefined\<close> inhabits too;
  \<open>get\<close> returns \<open>T | undefined\<close>.
\<close>

datatype 'a jsvalue = Undefined | Value 'a

record 'a CacheEntry =
  data :: "'a jsvalue"
  timestamp :: int
  hits :: int

text \<open>
  \<open>maxSize\<close> is a JavaScript \<open>number\<close>: a real (every finite double is one, whole or
  not), \<open>NaN\<close> or an infinity; \<open>undefined\<close>, which the option's type also admits,
  compares as \<open>NaN\<close> does. \<open>size_ge\<close> is \<open>this.cache.size >= maxSize\<close>, and
  \<open>size_le\<close> is the bound \<open>size <= maxSize\<close> a cache is to keep.
\<close>

datatype number = Finite real | NaN | Infinity | MinusInfinity

fun size_ge :: "nat \<Rightarrow> number \<Rightarrow> bool" where
  "size_ge n (Finite m) = (real n \<ge> m)"
| "size_ge n NaN = False"
| "size_ge n Infinity = False"
| "size_ge n MinusInfinity = True"

fun size_le :: "nat \<Rightarrow> number \<Rightarrow> bool" where
  "size_le n (Finite m) = (real n \<le> m)"
| "size_le n NaN = False"
| "size_le n Infinity = True"
| "size_le n MinusInfinity = False"

text \<open>
  The options after the constructor has merged the defaults. \<open>onEvict\<close> tells whether a
  callback is configured; the calls it receives are recorded in \<open>evictions\<close>.
\<close>

record QueryCacheOptions =
  maxSize :: number
  ttlMs :: int
  onEvict :: bool

text \<open>
  A JavaScript \<open>Map\<close> iterates in insertion order: it is the list of its entries, a
  new key is appended and an existing key keeps its place.
\<close>

type_synonym 'a entries = "(jsstring \<times> 'a CacheEntry) list"

record 'a QueryCache =
  cache :: "'a entries"
  options :: QueryCacheOptions
  evictions :: "'a entries"

definition Map_has :: "'a entries \<Rightarrow> jsstring \<Rightarrow> bool" where
  "Map_has m key = (map_of m key \<noteq> None)"

fun Map_set :: "'a entries \<Rightarrow> jsstring \<Rightarrow> 'a CacheEntry \<Rightarrow> 'a entries" where
  "Map_set [] key entry = [(key, entry)]"
| "Map_set ((k, e) # m) key entry =
     (if k = key then (key, entry) # m else (k, e) # Map_set m key entry)"

definition Map_delete :: "'a entries \<Rightarrow> jsstring \<Rightarrow> 'a entries" where
  "Map_delete m key = filter (\<lambda>(k, e). k \<noteq> key) m"

definition default_options :: QueryCacheOptions where
  "default_options = \<lparr> maxSize = Finite 100, ttlMs = 5 * 60 * 1000, onEvict = False \<rparr>"

definition new_QueryCache :: "QueryCacheOptions \<Rightarrow> 'a QueryCache" where
  "new_QueryCache opts = \<lparr> cache = [], options = opts, evictions = [] \<rparr>"

text \<open>\<open>now\<close> is the value of \<open>Date.now()\<close> at the call.\<close>

definition isExpired :: "'a QueryCache \<Rightarrow> int \<Rightarrow> 'a CacheEntry \<Rightarrow> bool" where
  "isExpired c now entry = (now - timestamp entry > ttlMs (options c))"

definition delete :: "'a QueryCache \<Rightarrow> jsstring \<Rightarrow> bool \<times> 'a QueryCache" where
  "delete c key =
     (let c1 = (case map_of (cache c) key of
                  Some entry \<Rightarrow>
                    if onEvict (options c) then c\<lparr> evictions := evictions c @ [(key, entry)] \<rparr>
                    else c
                | None \<Rightarrow> c)
      in (Map_has (cache c) key, c1\<lparr> cache := Map_delete (cache c) key \<rparr>))"

definition get :: "'a QueryCache \<Rightarrow> jsstring \<Rightarrow> int \<Rightarrow> 'a jsvalue \<times> 'a QueryCache" where
  "get c key now =
     (case map_of (cache c) key of
        None \<Rightarrow> (Undefined, c)
      | Some entry \<Rightarrow>
          if isExpired c now entry then (Undefined, snd (delete c key))
          else (data entry,
                c\<lparr> cache := Map_set (cache c) key (entry\<lparr> hits := hits entry + 1 \<rparr>) \<rparr>))"

text \<open>
  The loop of \<open>evictLRU\<close> over the entries in iteration order, on its two variables
  \<open>lruKey\<close> and \<open>lruEntry\<close> (\<open>None\<close> is \<open>null\<close>).
\<close>

fun evictLRU_loop ::
  "jsstring option \<times> 'a CacheEntry option \<Rightarrow> 'a entries
     \<Rightarrow> jsstring option \<times> 'a CacheEntry option" where
  "evictLRU_loop (lruKey, lruEntry) [] = (lruKey, lruEntry)"
| "evictLRU_loop (lruKey, lruEntry) ((key, entry) # rest) =
     (if (case lruEntry of
            None \<Rightarrow> True
          | Some lru \<Rightarrow> hits entry < hits lru
                        \<or> (hits entry = hits lru \<and> timestamp entry < timestamp lru))
      then evictLRU_loop (Some key, Some entry) rest
      else evictLRU_loop (lruKey, lruEntry) rest)"

text \<open>\<open>if (lruKey)\<close>: \<open>null\<close> and the empty string are both falsy.\<close>

definition evictLRU :: "'a QueryCache \<Rightarrow> 'a QueryCache" where
  "evictLRU c =
     (case fst (evictLRU_loop (None, None) (cache c)) of
        None \<Rightarrow> c
      | Some lruKey \<Rightarrow> if lruKey \<noteq> [] then snd (delete c lruKey) else c)"

definition set' :: "'a QueryCache \<Rightarrow> jsstring \<Rightarrow> 'a jsvalue \<Rightarrow> int \<Rightarrow> 'a QueryCache" where
  "set' c key d now =
     (let c1 = (if size_ge (length (cache c)) (maxSize (options c)) \<and> \<not> Map_has (cache c) key
                then evictLRU c else c)
      in c1\<lparr> cache := Map_set (cache c1) key \<lparr> data = d, timestamp = now, hits = 0 \<rparr> \<rparr>)"

definition has :: "'a QueryCache \<Rightarrow> jsstring \<Rightarrow> int \<Rightarrow> bool \<times> 'a QueryCache" where
  "has c key now =
     (case map_of (cache c) key of
        None \<Rightarrow> (False, c)
      | Some entry \<Rightarrow>
          if isExpired c now entry then (False, snd (delete c key))
          else (True, c))"

definition clear :: "'a QueryCache \<Rightarrow> 'a QueryCache" where
  "clear c =
     (let c1 = (if onEvict (options c) then c\<lparr> evictions := evictions c @ cache c \<rparr> else c)
      in c1\<lparr> cache := [] \<rparr>)"

definition size' :: "'a QueryCache \<Rightarrow> nat" where
  "size' c = length (cache c)"

definition keys :: "'a QueryCache \<Rightarrow> jsstring list" where
  "keys c = map fst (cache c)"

text \<open>
  \<open>getOrSet\<close>: \<open>factory\<close> resolves with a value or rejects; \<open>now\<close> is the time of the
  lookup and \<open>now'\<close> the time of the \<open>set\<close> after the factory has resolved. The second
  component of the result tells whether the factory was called.
\<close>

datatype 'a outcome = Resolved 'a | Rejected

definition getOrSet ::
  "'a QueryCache \<Rightarrow> jsstring \<Rightarrow> (unit \<Rightarrow> 'a jsvalue outcome) \<Rightarrow> int \<Rightarrow> int
     \<Rightarrow> 'a jsvalue outcome \<times> bool \<times> 'a QueryCache" where
  "getOrSet c key factory now now' =
     (let (cached, c1) = get c key now
      in if cached \<noteq> Undefined then (Resolved cached, False, c1)
         else (case factory () of
                 Rejected \<Rightarrow> (Rejected, True, c1)
               | Resolved d \<Rightarrow> (Resolved d, True, set' c1 key d now')))"

text \<open>
  \<open>invalidatePattern\<close> and \<open>prune\<close> loop over the map and delete as they go;
  \<open>pattern\<close> is \<open>pattern.test\<close>.
\<close>

fun invalidatePattern_loop ::
  "(jsstring \<Rightarrow> bool) \<Rightarrow> nat \<times> 'a QueryCache \<Rightarrow> jsstring list \<Rightarrow> nat \<times> 'a QueryCache" where
  "invalidatePattern_loop pattern (count, c) [] = (count, c)"
| "invalidatePattern_loop pattern (count, c) (key # rest) =
     (if pattern key then invalidatePattern_loop pattern (count + 1, snd (delete c key)) rest
      else invalidatePattern_loop pattern (count, c) rest)"

definition invalidatePattern :: "'a QueryCache \<Rightarrow> (jsstring \<Rightarrow> bool) \<Rightarrow> nat \<times> 'a QueryCache" where
  "invalidatePattern c pattern = invalidatePattern_loop pattern (0, c) (map fst (cache c))"

fun prune_loop :: "int \<Rightarrow> nat \<times> 'a QueryCache \<Rightarrow> 'a entries \<Rightarrow> nat \<times> 'a QueryCache" where
  "prune_loop now (count, c) [] = (count, c)"
| "prune_loop now (count, c) ((key, entry) # rest) =
     (if isExpired c now entry then prune_loop now (count + 1, snd (delete c key)) rest
      else prune_loop now (count, c) rest)"

definition prune :: "'a QueryCache \<Rightarrow> int \<Rightarrow> nat \<times> 'a QueryCache" where
  "prune c now = prune_loop now (0, c) (cache c)"

text \<open>A call of one of the cache's state-changing methods, and a sequence of calls.\<close>

datatype 'a operation =
    Get jsstring int
  | Set jsstring "'a jsvalue" int
  | Has jsstring int
  | Delete jsstring
  | Clear
  | GetOrSet jsstring "unit \<Rightarrow> 'a jsvalue outcome" int int
  | InvalidatePattern "jsstring \<Rightarrow> bool"
  | Prune int

fun apply_operation :: "'a QueryCache \<Rightarrow> 'a operation \<Rightarrow> 'a QueryCache" where
  "apply_operation c (Get key now) = snd (get c key now)"
| "apply_operation c (Set key d now) = set' c key d now"
| "apply_operation c (Has key now) = snd (has c key now)"
| "apply_operation c (Delete key) = snd (delete c key)"
| "apply_operation c Clear = clear c"
| "apply_operation c (GetOrSet key factory now now') = snd (snd (getOrSet c key factory now now'))"
| "apply_operation c (InvalidatePattern pattern) = snd (invalidatePattern c pattern)"
| "apply_operation c (Prune now) = snd (prune c now)"

fun run :: "'a QueryCache \<Rightarrow> 'a operation list \<Rightarrow> 'a QueryCache" where
  "run c [] = c"
| "run c (operation # rest) = run (apply_operation c operation) rest"

text \<open>The key an operation stores under, if it can store.\<close>

fun stored_key :: "'a operation \<Rightarrow> jsstring option" where
  "stored_key (Set key d now) = Some key"
| "stored_key (GetOrSet key factory now now') = Some key"
| "stored_key _ = None"

section \<open>Concrete inputs\<close>

text \<open>
  A runtime to run the transports on: \<open>JSON.parse\<close> restricted to the lines below (any
  other line is taken as malformed), a handler set that counts the requests it has seen
  and answers with the request's \<open>id\<close>, one that always fails, and one whose promises
  stay pending.
\<close>

definition request_line :: jsstring where
  \<open>request_line = js ''{"jsonrpc":"2.0","id":42,"method":"ping"}''\<close>

definition notification_line :: jsstring where
  \<open>notification_line = js ''{"jsonrpc":"2.0","method":"notify"}''\<close>

definition malformed_line :: jsstring where
  \<open>malformed_line = js ''{not json''\<close>

definition example_request :: json where
  "example_request =
     JObject [(js ''jsonrpc'', JString (js ''2.0'')), (js ''id'', JNumber 42),
              (js ''method'', JString (js ''ping''))]"

definition example_notification :: json where
  "example_notification =
     JObject [(js ''jsonrpc'', JString (js ''2.0'')), (js ''method'', JString (js ''notify''))]"

text \<open>
  A request whose \<open>id\<close> is the string of the one character U+00E9, and the line and
  request that result when the two bytes of that character are each decoded alone.
\<close>

definition accented_line :: jsstring where
  \<open>accented_line = js ''{"jsonrpc":"2.0","id":"'' @ [0xE9] @ js ''","method":"ping"}''\<close>

definition accented_request :: json where
  "accented_request =
     JObject [(js ''jsonrpc'', JString (js ''2.0'')), (js ''id'', JString [0xE9]),
              (js ''method'', JString (js ''ping''))]"

definition replaced_line :: jsstring where
  \<open>replaced_line = js ''{"jsonrpc":"2.0","id":"'' @ [0xFFFD, 0xFFFD] @ js ''","method":"ping"}''\<close>

definition replaced_request :: json where
  "replaced_request =
     JObject [(js ''jsonrpc'', JString (js ''2.0'')), (js ''id'', JString [0xFFFD, 0xFFFD]),
              (js ''method'', JString (js ''ping''))]"

text \<open>
  The bytes of \<open>accented_line\<close> and its newline in UTF-8, received in two buffers that
  part between the two bytes of U+00E9.
\<close>

definition first_buffer :: "byte list" where
  \<open>first_buffer = ascii ''{"jsonrpc":"2.0","id":"'' @ [0xC3]\<close>

definition second_buffer :: "byte list" where
  \<open>second_buffer = [0xA9] @ ascii ''","method":"ping"}'' @ [0x0A]\<close>

definition example_parse :: "jsstring \<Rightarrow> json option" where
  "example_parse line =
     (if line = request_line then Some example_request
      else if line = notification_line then Some example_notification
      else if line = accented_line then Some accented_request
      else if line = replaced_line then Some replaced_request
      else None)"

definition answering_handleRequest :: "nat \<Rightarrow> json \<Rightarrow> handled \<times> nat" where
  "answering_handleRequest h request =
     (Responds \<lparr> jsonrpc = js ''2.0'',
                 id' = (case request_id request of Some i \<Rightarrow> i | None \<Rightarrow> JNull),
                 result = Some (JString (js ''ok'')), error = None \<rparr>,
      h + 1)"

definition failing_handleRequest :: "nat \<Rightarrow> json \<Rightarrow> handled \<times> nat" where
  "failing_handleRequest h request = (Fails, h + 1)"

definition pending_handleRequest :: "nat \<Rightarrow> json \<Rightarrow> handled \<times> nat" where
  "pending_handleRequest h request = (Pends, h + 1)"

definition example_runtime :: "nat runtime" where
  "example_runtime =
     \<lparr> JSON_parse = example_parse, handleRequest = answering_handleRequest,
       PARSE_ERROR = - 32700 \<rparr>"

definition failing_runtime :: "nat runtime" where
  "failing_runtime = example_runtime \<lparr> handleRequest := failing_handleRequest \<rparr>"

definition pending_runtime :: "nat runtime" where
  "pending_runtime = example_runtime \<lparr> handleRequest := pending_handleRequest \<rparr>"

lemmas js_eval = js_def newline_def is_whitespace_def trim_def

lemmas utf8_eval =
  Buffer_toString_def utf8_step_def utf8_first_def utf8_start_def utf16_def ascii_def Let_def

lemmas example_eval =
  example_runtime_def example_parse_def request_line_def notification_line_def
  accented_line_def replaced_line_def accented_request_def replaced_request_def
  answering_handleRequest_def request_id_def initial_def

section \<open>Properties of the framer\<close>

lemma split_newline_not_Nil: "split_newline s \<noteq> []"
  by (induction s) (auto split: list.splits)

lemma split_newline_segments: "seg \<in> set (split_newline s) \<Longrightarrow> newline \<notin> set seg"
  by (induction s arbitrary: seg) (auto split: list.splits if_splits)

lemma split_newline_single: "newline \<notin> set s \<Longrightarrow> split_newline s = [s]"
  by (induction s) auto

lemma split_newline_append:
  "split_newline (a @ b) =
     butlast (split_newline a) @ (last (split_newline a) @ hd (split_newline b)) # tl (split_newline b)"
proof (induction a)
  case Nil
  then show ?case using split_newline_not_Nil[of b] by (cases "split_newline b") auto
next
  case (Cons c a)
  then show ?case
    using split_newline_not_Nil[of a] split_newline_not_Nil[of b] split_newline_not_Nil[of "a @ b"]
    by (cases "split_newline a"; cases "split_newline (a @ b)") (auto split: list.splits)
qed

lemma last_split_newline: "newline \<notin> set (last (split_newline s))"
  using split_newline_segments[of "last (split_newline s)" s] split_newline_not_Nil[of s]
  by simp

lemma split_newline_carry:
  "split_newline (a @ b) = butlast (split_newline a) @ split_newline (last (split_newline a) @ b)"
proof -
  have "split_newline (last (split_newline a)) = [last (split_newline a)]"
    by (rule split_newline_single) (rule last_split_newline)
  then have "split_newline (last (split_newline a) @ b)
      = (last (split_newline a) @ hd (split_newline b)) # tl (split_newline b)"
    by (simp add: split_newline_append[of "last (split_newline a)" b])
  then show ?thesis by (simp add: split_newline_append[of a b])
qed

lemma push_trimmed_filter: "push_trimmed acc ls = acc @ filter (\<lambda>l. l \<noteq> []) (map trim ls)"
  by (induction ls arbitrary: acc) (auto simp: Let_def)

lemma newline_delimited_lines_split:
  "newline_delimited_lines cur s =
     butlast (case split_newline s of [] \<Rightarrow> [] | seg # segs \<Rightarrow> (cur @ seg) # segs)"
  using split_newline_not_Nil
  by (induction s arbitrary: cur) (auto split: list.splits)

lemma nonempty_trimmed_lines_parsed:
  "nonempty_trimmed_lines s = parsed (parseMessages s)"
  using split_newline_not_Nil[of s]
  by (cases "split_newline s")
     (auto simp: nonempty_trimmed_lines_def parseMessages_def pop_or_empty_def
        push_trimmed_filter newline_delimited_lines_split)

lemma feed_chunk_split:
  "feed_chunk buf chunk =
     (filter (\<lambda>l. l \<noteq> []) (map trim (butlast (split_newline (buf @ chunk)))),
      last (split_newline (buf @ chunk)))"
  by (simp add: feed_chunk_def parseMessages_def pop_or_empty_def split_newline_not_Nil
      push_trimmed_filter)

lemma feed_split:
  "newline \<notin> set buf \<Longrightarrow>
   feed buf chunks =
     (filter (\<lambda>l. l \<noteq> []) (map trim (butlast (split_newline (buf @ concat chunks)))),
      last (split_newline (buf @ concat chunks)))"
proof (induction chunks arbitrary: buf)
  case Nil
  then show ?case by (simp add: split_newline_single)
next
  case (Cons chunk chunks)
  let ?b = "last (split_newline (buf @ chunk))"
  have nb: "newline \<notin> set ?b" by (rule last_split_newline)
  have carry: "split_newline (buf @ chunk @ concat chunks)
      = butlast (split_newline (buf @ chunk)) @ split_newline (?b @ concat chunks)"
    using split_newline_carry[of "buf @ chunk" "concat chunks"] by simp
  show ?case
    using Cons.IH[OF nb] split_newline_not_Nil[of "?b @ concat chunks"]
    by (simp add: feed_chunk_split carry butlast_append)
qed

lemma feed_emits: "fst (feed [] chunks) = parsed (parseMessages (concat chunks))"
proof -
  have "newline \<notin> set ([] :: jsstring)" by simp
  from feed_split[OF this, of chunks] show ?thesis
    by (simp add: parseMessages_def pop_or_empty_def split_newline_not_Nil push_trimmed_filter)
qed

text \<open>
  C1. Fed in order from an empty remainder, any sequence of chunks makes the framer emit
  the non-empty trimmed newline-delimited lines of the concatenated text, in order; so two
  ways of splitting the same text emit the same sequence of lines.
\<close>

theorem framer_chunk_independent:
  "fst (feed [] chunks) = nonempty_trimmed_lines (concat chunks)
   \<and> (concat chunks' = concat chunks \<longrightarrow> fst (feed [] chunks') = fst (feed [] chunks))"
  by (simp add: feed_emits nonempty_trimmed_lines_parsed)

theorem framer_chunk_independent_witness:
  "concat [js ''a'', js ''\<newline>bc\<newline>'', js '' d \<newline>e''] = concat [js ''a\<newline>b'', js ''c\<newline> d \<newline>e'']
   \<and> fst (feed [] [js ''a'', js ''\<newline>bc\<newline>'', js '' d \<newline>e'']) = [js ''a'', js ''bc'', js ''d'']
   \<and> fst (feed [] [js ''a\<newline>b'', js ''c\<newline> d \<newline>e'']) = [js ''a'', js ''bc'', js ''d'']
   \<and> nonempty_trimmed_lines (js ''a\<newline>bc\<newline> d \<newline>e'') = [js ''a'', js ''bc'', js ''d'']"
proof -
  have c: "concat [js ''a'', js ''\<newline>bc\<newline>'', js '' d \<newline>e''] = concat [js ''a\<newline>b'', js ''c\<newline> d \<newline>e'']"
    by (simp add: js_def)
  have t: "concat [js ''a\<newline>b'', js ''c\<newline> d \<newline>e''] = js ''a\<newline>bc\<newline> d \<newline>e''"
    by (simp add: js_def)
  have v: "nonempty_trimmed_lines (js ''a\<newline>bc\<newline> d \<newline>e'') = [js ''a'', js ''bc'', js ''d'']"
    by (simp add: nonempty_trimmed_lines_def js_eval)
  from framer_chunk_independent[of "[js ''a\<newline>b'', js ''c\<newline> d \<newline>e'']" "[js ''a'', js ''\<newline>bc\<newline>'', js '' d \<newline>e'']"]
  show ?thesis using c t v by simp
qed

section \<open>Properties of the transports\<close>

lemma handleConnection_message_buffer [simp]:
  "buffer (handleConnection_message rt st msg) = buffer st"
  by (simp add: handleConnection_message_def split: prod.splits option.splits sum.splits)

lemma handleConnection_loop_buffer [simp]:
  "buffer (handleConnection_loop rt st msgs) = buffer st"
  by (induction msgs arbitrary: st) simp_all

lemma startStdio_line_buffer [simp]: "buffer (startStdio_line rt st line) = buffer st"
  by (simp add: startStdio_line_def startStdio_message_def Let_def
      split: prod.splits option.splits sum.splits)

lemma startStdio_loop_buffer [simp]: "buffer (startStdio_loop rt st lines) = buffer st"
  by (induction lines arbitrary: st) simp_all

lemma handleConnection_data_buffer:
  "buffer (handleConnection_data rt st received)
     = last (split_newline (buffer st @ Buffer_toString received))"
  by (simp add: handleConnection_data_def parseMessages_def pop_or_empty_def
      split_newline_not_Nil Let_def)

lemma startStdio_data_buffer:
  "buffer (startStdio_data rt st chunk) = last (split_newline (buffer st @ chunk))"
  by (simp add: startStdio_data_def pop_or_empty_def split_newline_not_Nil Let_def)

lemma handleConnection_run_buffer:
  "newline \<notin> set (buffer st) \<Longrightarrow> newline \<notin> set (buffer (handleConnection_run rt st buffers))"
  by (induction buffers arbitrary: st)
     (simp_all add: handleConnection_data_buffer last_split_newline)

lemma startStdio_run_buffer:
  "newline \<notin> set (buffer st) \<Longrightarrow> newline \<notin> set (buffer (startStdio_run rt st chunks))"
  by (induction chunks arbitrary: st)
     (simp_all add: startStdio_data_buffer last_split_newline)

lemma feed_remainder: "newline \<notin> set buf \<Longrightarrow> newline \<notin> set (snd (feed buf chunks))"
  by (simp add: feed_split last_split_newline)

text \<open>
  C8. The remainder the framer retains never contains the newline character: that of
  \<open>parseMessages\<close> for any text, and the buffer of the framer and of either transport
  after any sequence of chunks (so after each chunk of a longer sequence).
\<close>

theorem remainder_without_newline:
  "newline \<notin> set (remaining (parseMessages text))
   \<and> newline \<notin> set (snd (feed [] chunks))
   \<and> newline \<notin> set (buffer (handleConnection_run rt (initial h) buffers))
   \<and> newline \<notin> set (buffer (startStdio_run rt (initial h) chunks))"
proof -
  have "newline \<notin> set (remaining (parseMessages text))"
    by (simp add: parseMessages_def pop_or_empty_def split_newline_not_Nil last_split_newline)
  moreover have "newline \<notin> set (snd (feed [] chunks))"
    by (rule feed_remainder) simp
  moreover have "newline \<notin> set (buffer (handleConnection_run rt (initial h) buffers))"
    by (rule handleConnection_run_buffer) (simp add: initial_def)
  moreover have "newline \<notin> set (buffer (startStdio_run rt (initial h) chunks))"
    by (rule startStdio_run_buffer) (simp add: initial_def)
  ultimately show ?thesis by simp
qed

lemma try_same: "startStdio_try rt h msg = handleConnection_try rt h msg"
  by (simp add: startStdio_try_def handleConnection_try_def)

lemma message_same: "startStdio_message rt st msg = handleConnection_message rt st msg"
  by (simp add: startStdio_message_def handleConnection_message_def try_same)

lemma loop_same:
  "startStdio_loop rt st lines = handleConnection_loop rt st (push_trimmed [] lines)"
proof (induction lines arbitrary: st)
  case Nil
  then show ?case by simp
next
  case (Cons line lines)
  show ?case
  proof (cases "trim line = []")
    case True
    then show ?thesis using Cons.IH by (simp add: startStdio_line_def push_trimmed_filter)
  next
    case False
    then show ?thesis using Cons.IH
      by (simp add: startStdio_line_def push_trimmed_filter message_same try_same)
  qed
qed

text \<open>
  Framing and dispatch are the same in both transports: on a buffer, the socket
  transport does what the standard-stream transport does on the text that buffer decodes
  to on its own.
\<close>

lemma data_same:
  "handleConnection_data rt st received = startStdio_data rt st (Buffer_toString received)"
  by (simp add: startStdio_data_def handleConnection_data_def parseMessages_def loop_same
      Let_def split: prod.splits)

lemma run_same:
  "handleConnection_run rt st buffers = startStdio_run rt st (map Buffer_toString buffers)"
  by (induction buffers arbitrary: st) (simp_all add: data_same)

lemma example_buffers_decoded:
  "Buffer_toString first_buffer = js ''{\"jsonrpc\":\"2.0\",\"id\":\"'' @ [0xFFFD]"
  "Buffer_toString second_buffer = [0xFFFD] @ js ''\",\"method\":\"ping\"}'' @ [newline]"
  "stdin_chunks utf8_start [first_buffer, second_buffer]
     = [js ''{\"jsonrpc\":\"2.0\",\"id\":\"'', [0xE9] @ js ''\",\"method\":\"ping\"}'' @ [newline]]"
  by (simp_all add: first_buffer_def second_buffer_def utf8_eval js_def newline_def)

text \<open>
  C7 at the failing input: the request \<open>accented_line\<close>, sent as \<open>first_buffer\<close> and
  \<open>second_buffer\<close>. The socket transport decodes each buffer on its own, reads the
  \<open>id\<close> as two U+FFFD and answers with that \<open>id\<close>; the standard-stream transport is given
  the text the stream decoded across the two buffers and answers with the \<open>id\<close> sent.
\<close>

theorem transports_differ_on_split_character:
  "written (handleConnection_run example_runtime (initial 0) [first_buffer, second_buffer])
     = [\<lparr> jsonrpc = js ''2.0'', id' = JString [0xFFFD, 0xFFFD],
          result = Some (JString (js ''ok'')), error = None \<rparr>]
   \<and> written (startStdio_run example_runtime (initial 0)
        (stdin_chunks utf8_start [first_buffer, second_buffer]))
     = [\<lparr> jsonrpc = js ''2.0'', id' = JString [0xE9],
          result = Some (JString (js ''ok'')), error = None \<rparr>]
   \<and> written (handleConnection_run example_runtime (initial 0) [first_buffer, second_buffer])
     \<noteq> written (startStdio_run example_runtime (initial 0)
          (stdin_chunks utf8_start [first_buffer, second_buffer]))"
proof -
  have socket:
    "written (startStdio_run example_runtime (initial 0)
        [Buffer_toString first_buffer, Buffer_toString second_buffer])
     = [\<lparr> jsonrpc = js ''2.0'', id' = JString [0xFFFD, 0xFFFD],
          result = Some (JString (js ''ok'')), error = None \<rparr>]"
    unfolding example_buffers_decoded
    by (simp add: startStdio_data_def startStdio_line_def startStdio_message_def
        startStdio_try_def pop_or_empty_def example_eval js_eval)
  have stdio:
    "written (startStdio_run example_runtime (initial 0)
        (stdin_chunks utf8_start [first_buffer, second_buffer]))
     = [\<lparr> jsonrpc = js ''2.0'', id' = JString [0xE9],
          result = Some (JString (js ''ok'')), error = None \<rparr>]"
    unfolding example_buffers_decoded
    by (simp add: startStdio_data_def startStdio_line_def startStdio_message_def
        startStdio_try_def pop_or_empty_def example_eval js_eval)
  show ?thesis using socket stdio by (simp add: run_same)
qed

section \<open>Properties of the dispatch\<close>

lemma handleConnection_message_parse_failure:
  "JSON_parse rt msg = None \<Longrightarrow>
   handleConnection_message rt st msg = st\<lparr> written := written st @ [errorResponse rt] \<rparr>"
  by (simp add: handleConnection_message_def handleConnection_try_def)

lemma handleConnection_message_handled:
  "JSON_parse rt msg = Some request \<Longrightarrow>
   handleConnection_message rt st msg =
     (case fst (handleRequest rt (handlers st) request) of
        Responds response \<Rightarrow>
          st\<lparr> handlers := snd (handleRequest rt (handlers st) request),
              written := written st @ [response] \<rparr>
      | Fails \<Rightarrow>
          st\<lparr> handlers := snd (handleRequest rt (handlers st) request),
              written := written st @ [errorResponse rt] \<rparr>
      | Pends \<Rightarrow> st\<lparr> handlers := snd (handleRequest rt (handlers st) request) \<rparr>)"
  by (simp add: handleConnection_message_def handleConnection_try_def
      split: prod.splits handled.splits)

text \<open>A chunk that is one line and its newline is dispatched as that one message.\<close>

lemma startStdio_data_one_line:
  assumes "parseMessages (line @ [newline]) = \<lparr> parsed = [line], remaining = [] \<rparr>"
  shows "startStdio_data rt (initial h) (line @ [newline])
           = handleConnection_message rt (initial h) line"
proof -
  have "startStdio_data rt (initial h) (line @ [newline])
          = handleConnection_loop rt (initial h) [line]"
    using assms
    by (simp add: startStdio_data_def parseMessages_def loop_same initial_def split: prod.splits)
  then show ?thesis by simp
qed

lemma example_lines_distinct:
  "request_line \<noteq> notification_line" "notification_line \<noteq> request_line"
  "malformed_line \<noteq> request_line" "malformed_line \<noteq> notification_line"
  "malformed_line \<noteq> accented_line" "malformed_line \<noteq> replaced_line"
  "accented_line \<noteq> request_line" "accented_line \<noteq> notification_line"
  "replaced_line \<noteq> request_line" "replaced_line \<noteq> notification_line"
  "replaced_line \<noteq> accented_line"
  by (simp_all add: request_line_def notification_line_def malformed_line_def accented_line_def
      replaced_line_def js_def)

lemma example_parse_lines:
  "example_parse request_line = Some example_request"
  "example_parse notification_line = Some example_notification"
  "example_parse accented_line = Some accented_request"
  "example_parse replaced_line = Some replaced_request"
  "example_parse malformed_line = None"
  by (simp_all add: example_parse_def example_lines_distinct)

lemma example_request_fields:
  "request_id example_request = Some (JNumber 42)"
  "request_id example_notification = None"
  "request_id accented_request = Some (JString [0xE9])"
  "request_id replaced_request = Some (JString [0xFFFD, 0xFFFD])"
  "is_notification example_notification"
  by (simp_all add: request_id_def is_notification_def example_request_def
      example_notification_def accented_request_def replaced_request_def js_def)

lemma example_handlers:
  "handleRequest example_runtime = answering_handleRequest"
  "handleRequest failing_runtime = failing_handleRequest"
  "handleRequest pending_runtime = pending_handleRequest"
  "JSON_parse example_runtime = example_parse"
  "JSON_parse failing_runtime = example_parse"
  "JSON_parse pending_runtime = example_parse"
  by (simp_all add: example_runtime_def failing_runtime_def pending_runtime_def)

text \<open>
  C5. A line that \<open>JSON.parse\<close> rejects makes either transport write exactly one
  response, the error response with \<open>id\<close> null and the code \<open>PARSE_ERROR\<close>; the
  SyntaxError raised in the \<open>try\<close> block is caught there, and the handler set's state
  and the buffer are left as they were.
\<close>

theorem parse_failure_response:
  assumes "JSON_parse rt msg = None"
  shows "handleConnection_message rt st msg = st\<lparr> written := written st @ [errorResponse rt] \<rparr>
    \<and> startStdio_message rt st msg = st\<lparr> written := written st @ [errorResponse rt] \<rparr>
    \<and> fst (handleConnection_try rt (handlers st) msg) = Some (Inl SyntaxError)
    \<and> fst (startStdio_try rt (handlers st) msg) = Some (Inl SyntaxError)
    \<and> id' (errorResponse rt) = JNull
    \<and> map_option code (error (errorResponse rt)) = Some (PARSE_ERROR rt)
    \<and> result (errorResponse rt) = None"
  using assms
  by (simp add: message_same handleConnection_message_parse_failure try_same
      handleConnection_try_def errorResponse_def)

theorem parse_failure_response_witness:
  "JSON_parse example_runtime malformed_line = None
   \<and> written (handleConnection_message example_runtime (initial 0) malformed_line)
       = [errorResponse example_runtime]
   \<and> written (startStdio_message example_runtime (initial 0) malformed_line)
       = [errorResponse example_runtime]
   \<and> id' (errorResponse example_runtime) = JNull
   \<and> map_option code (error (errorResponse example_runtime)) = Some (- 32700)"
proof -
  have p: "JSON_parse example_runtime malformed_line = None"
    by (simp add: example_handlers example_parse_lines)
  from parse_failure_response[OF p, of "initial 0"] show ?thesis
    using p by (simp add: initial_def example_runtime_def)
qed

text \<open>
  C4 at the failing input: the line \<open>request_line\<close> parses to a request with \<open>id\<close> 42
  and its handler fails. Received as one chunk, or dispatched by either transport, it is
  answered by the response the \<open>catch\<close> block builds for a parse failure: \<open>id\<close> null,
  the code \<open>PARSE_ERROR\<close> and the message \<open>Invalid JSON\<close>; the request's \<open>id\<close> and the
  handler's failure are not in it.
\<close>

theorem handler_failure_at_request:
  "JSON_parse failing_runtime request_line = Some example_request
   \<and> request_id example_request = Some (JNumber 42)
   \<and> fst (handleRequest failing_runtime 0 example_request) = Fails
   \<and> written (startStdio_run failing_runtime (initial 0) [request_line @ [newline]])
       = [errorResponse failing_runtime]
   \<and> written (handleConnection_message failing_runtime (initial 0) request_line)
       = [errorResponse failing_runtime]
   \<and> written (startStdio_message failing_runtime (initial 0) request_line)
       = [errorResponse failing_runtime]
   \<and> errorResponse failing_runtime
       = \<lparr> jsonrpc = js ''2.0'', id' = JNull, result = None,
           error = Some \<lparr> code = - 32700, message = js ''Invalid JSON'', error_data = None \<rparr> \<rparr>"
proof -
  have m: "parseMessages (request_line @ [newline])
             = \<lparr> parsed = [request_line], remaining = [] \<rparr>"
    by (simp add: parseMessages_def pop_or_empty_def request_line_def js_eval)
  have p: "JSON_parse failing_runtime request_line = Some example_request"
    by (simp add: example_handlers example_parse_lines)
  have f: "fst (handleRequest failing_runtime 0 example_request) = Fails"
    by (simp add: example_handlers failing_handleRequest_def)
  have w: "written (handleConnection_message failing_runtime (initial 0) request_line)
             = [errorResponse failing_runtime]"
    using f by (simp add: handleConnection_message_handled[OF p] initial_def)
  have e: "errorResponse failing_runtime
       = \<lparr> jsonrpc = js ''2.0'', id' = JNull, result = None,
           error = Some \<lparr> code = - 32700, message = js ''Invalid JSON'', error_data = None \<rparr> \<rparr>"
    by (simp add: errorResponse_def failing_runtime_def example_runtime_def)
  show ?thesis
    using p f w e
    by (simp add: example_request_fields startStdio_data_one_line[OF m] message_same)
qed

text \<open>
  C9, as stated, fails: the notification of \<open>notification_line\<close>, received as one chunk
  by the standard-stream transport, gets a response written.
\<close>

theorem notification_counterexample:
  "\<not> (JSON_parse example_runtime notification_line = Some example_notification
        \<and> is_notification example_notification
      \<longrightarrow> written (startStdio_run example_runtime (initial 0)
                     [notification_line @ [newline]]) = [])"
proof -
  have m: "parseMessages (notification_line @ [newline])
             = \<lparr> parsed = [notification_line], remaining = [] \<rparr>"
    by (simp add: parseMessages_def pop_or_empty_def notification_line_def js_eval)
  have p: "JSON_parse example_runtime notification_line = Some example_notification"
    by (simp add: example_handlers example_parse_lines)
  have d: "startStdio_run example_runtime (initial 0) [notification_line @ [newline]]
             = handleConnection_message example_runtime (initial 0) notification_line"
    by (simp add: startStdio_data_one_line[OF m])
  have w: "written (handleConnection_message example_runtime (initial 0) notification_line)
             \<noteq> []"
    by (simp add: handleConnection_message_handled[OF p] example_handlers(1)
        answering_handleRequest_def initial_def)
  show ?thesis using d w p by (simp add: example_request_fields)
qed

text \<open>
  C9, amended. A message without \<open>id\<close> is dispatched as any other message that
  parses. When the handler's promise resolves with a response, either transport writes
  that response; while the promise is pending, as when the input ends first and the
  process exits, nothing is written for the message.
\<close>

theorem notification_response:
  assumes "JSON_parse rt msg = Some request" and "is_notification request"
  shows "(fst (handleRequest rt (handlers st) request) = Responds response \<longrightarrow>
            written (handleConnection_message rt st msg) = written st @ [response]
          \<and> written (startStdio_message rt st msg) = written st @ [response])
       \<and> (fst (handleRequest rt (handlers st) request) = Pends \<longrightarrow>
            written (handleConnection_message rt st msg) = written st
          \<and> written (startStdio_message rt st msg) = written st)"
  using assms(1)
  by (simp add: message_same handleConnection_message_handled)

theorem notification_response_witness:
  "JSON_parse example_runtime notification_line = Some example_notification
   \<and> is_notification example_notification
   \<and> fst (handleRequest example_runtime 0 example_notification)
       = Responds \<lparr> jsonrpc = js ''2.0'', id' = JNull, result = Some (JString (js ''ok'')),
                    error = None \<rparr>
   \<and> written (handleConnection_message example_runtime (initial 0) notification_line)
       = [\<lparr> jsonrpc = js ''2.0'', id' = JNull, result = Some (JString (js ''ok'')), error = None \<rparr>]
   \<and> written (startStdio_message example_runtime (initial 0) notification_line)
       = [\<lparr> jsonrpc = js ''2.0'', id' = JNull, result = Some (JString (js ''ok'')), error = None \<rparr>]
   \<and> JSON_parse pending_runtime notification_line = Some example_notification
   \<and> fst (handleRequest pending_runtime 0 example_notification) = Pends
   \<and> written (handleConnection_message pending_runtime (initial 0) notification_line) = []
   \<and> written (startStdio_message pending_runtime (initial 0) notification_line) = []"
proof -
  let ?r = "\<lparr> jsonrpc = js ''2.0'', id' = JNull, result = Some (JString (js ''ok'')),
              error = None \<rparr>"
  have p: "JSON_parse example_runtime notification_line = Some example_notification"
    by (simp add: example_handlers example_parse_lines)
  have q: "JSON_parse pending_runtime notification_line = Some example_notification"
    by (simp add: example_handlers example_parse_lines)
  have n: "is_notification example_notification"
    by (simp add: example_request_fields)
  have a: "fst (handleRequest example_runtime (handlers (initial 0)) example_notification)
             = Responds ?r"
    by (simp add: example_handlers answering_handleRequest_def example_request_fields)
  have b: "fst (handleRequest pending_runtime (handlers (initial 0)) example_notification) = Pends"
    by (simp add: example_handlers pending_handleRequest_def)
  from notification_response[OF p n, of "initial 0" ?r]
    notification_response[OF q n, of "initial 0" ?r]
  show ?thesis
    using p q n a b by (simp add: initial_def)
qed

section \<open>Properties of the cache\<close>

lemma map_of_Map_set: "map_of (Map_set m key entry) = (map_of m)(key \<mapsto> entry)"
  by (induction m) (auto simp: fun_eq_iff)

lemma map_of_Map_delete: "map_of (Map_delete m key) = (map_of m)(key := None)"
  by (induction m) (auto simp: Map_delete_def fun_eq_iff)

lemma length_Map_delete: "length (Map_delete m key) \<le> length m"
  by (simp add: Map_delete_def)

lemma length_Map_delete_has: "Map_has m key \<Longrightarrow> length (Map_delete m key) < length m"
proof -
  assume "Map_has m key"
  then obtain e where "(key, e) \<in> set m"
    by (auto simp: Map_has_def dest: map_of_SomeD)
  then show ?thesis
    unfolding Map_delete_def by (intro length_filter_less[of "(key, e)"]) auto
qed

lemma length_Map_set:
  "length (Map_set m key entry) = (if Map_has m key then length m else Suc (length m))"
  by (induction m) (auto simp: Map_has_def)

lemma keys_Map_set: "fst ` set (Map_set m key entry) = insert key (fst ` set m)"
  by (simp add: dom_map_of_conv_image_fst[symmetric] map_of_Map_set)

lemma keys_Map_delete: "fst ` set (Map_delete m key) = fst ` set m - {key}"
  by (simp add: dom_map_of_conv_image_fst[symmetric] map_of_Map_delete)

lemma Map_has_keys: "Map_has m key \<longleftrightarrow> key \<in> fst ` set m"
  by (simp add: Map_has_def map_of_eq_None_iff)

text \<open>
  C6. For a key with an entry, \<open>get\<close> at a time when the entry's age exceeds the
  time-to-live returns \<open>undefined\<close> and removes the entry, so that \<open>has\<close> is false at any
  later time; otherwise it returns the stored value and leaves the entry with its hit
  count increased by one.
\<close>

theorem get_expiry_and_hit:
  assumes "map_of (cache c) key = Some entry"
  shows "(now - timestamp entry > ttlMs (options c) \<longrightarrow>
            fst (get c key now) = Undefined
          \<and> map_of (cache (snd (get c key now))) key = None
          \<and> key \<notin> set (keys (snd (get c key now)))
          \<and> fst (has (snd (get c key now)) key later) = False)
       \<and> (\<not> now - timestamp entry > ttlMs (options c) \<longrightarrow>
            fst (get c key now) = data entry
          \<and> map_of (cache (snd (get c key now))) key = Some (entry\<lparr> hits := hits entry + 1 \<rparr>))"
  using assms
  by (auto simp: get_def isExpired_def delete_def has_def keys_def map_of_Map_delete map_of_Map_set
      Let_def keys_Map_delete split: option.splits)


theorem get_expiry_and_hit_witness:
  "get \<lparr> cache = [(js ''q'', \<lparr> data = Value (7::nat), timestamp = 1000, hits = 0 \<rparr>)],
         options = default_options, evictions = [] \<rparr> (js ''q'') 400000
     = (Undefined, \<lparr> cache = [], options = default_options, evictions = [] \<rparr>)
   \<and> fst (has \<lparr> cache = [] :: nat entries, options = default_options, evictions = [] \<rparr>
          (js ''q'') 400001) = False
   \<and> get \<lparr> cache = [(js ''q'', \<lparr> data = Value (7::nat), timestamp = 1000, hits = 0 \<rparr>)],
         options = default_options, evictions = [] \<rparr> (js ''q'') 2000
     = (Value 7, \<lparr> cache = [(js ''q'', \<lparr> data = Value 7, timestamp = 1000, hits = 1 \<rparr>)],
                  options = default_options, evictions = [] \<rparr>)"
proof -
  let ?e = "\<lparr> data = Value (7::nat), timestamp = 1000, hits = 0 \<rparr>"
  let ?c = "\<lparr> cache = [(js ''q'', ?e)], options = default_options, evictions = [] \<rparr>"
  have m: "map_of (cache ?c) (js ''q'') = Some ?e"
    by simp
  from get_expiry_and_hit[OF m, of 400000 400001] get_expiry_and_hit[OF m, of 2000 2001]
  show ?thesis
    by (simp add: get_def isExpired_def delete_def has_def default_options_def
        Map_delete_def Map_has_def Let_def)
qed

text \<open>
  C10. With an unexpired entry that stores \<open>undefined\<close> under the key, \<open>get\<close> returns
  \<open>undefined\<close>, as it does once the entry is gone; so \<open>getOrSet\<close> calls the factory
  again, returns its outcome and, when it resolves, stores the value anew with the hit
  count 0 and the time of that \<open>set\<close>.
\<close>

theorem getOrSet_stored_undefined:
  assumes "map_of (cache c) key = Some entry"
    and "data entry = Undefined"
    and "\<not> isExpired c now entry"
  shows "fst (get c key now) = Undefined
    \<and> fst (get (snd (delete c key)) key now) = Undefined
    \<and> fst (snd (getOrSet c key factory now now')) = True
    \<and> fst (getOrSet c key factory now now') = factory ()
    \<and> (factory () = Resolved d \<longrightarrow>
          map_of (cache (snd (snd (getOrSet c key factory now now')))) key
            = Some \<lparr> data = d, timestamp = now', hits = 0 \<rparr>)"
  using assms
  by (auto simp: getOrSet_def get_def delete_def set'_def map_of_Map_set map_of_Map_delete Let_def
      split: outcome.splits option.splits)

theorem getOrSet_stored_undefined_witness:
  "getOrSet \<lparr> cache = [(js ''q'', \<lparr> data = Undefined, timestamp = 1000, hits = 0 \<rparr>)],
              options = default_options, evictions = [] \<rparr> (js ''q'')
       (\<lambda>u. Resolved (Value (7::nat))) 2000 2005
     = (Resolved (Value 7), True,
        \<lparr> cache = [(js ''q'', \<lparr> data = Value 7, timestamp = 2005, hits = 0 \<rparr>)],
          options = default_options, evictions = [] \<rparr>)
   \<and> fst (get \<lparr> cache = [(js ''q'', \<lparr> data = Undefined :: nat jsvalue, timestamp = 1000, hits = 0 \<rparr>)],
              options = default_options, evictions = [] \<rparr> (js ''q'') 2000) = Undefined
   \<and> fst (get \<lparr> cache = [] :: nat entries, options = default_options, evictions = [] \<rparr>
          (js ''q'') 2000) = Undefined"
proof -
  let ?e = "\<lparr> data = (Undefined :: nat jsvalue), timestamp = 1000, hits = 0 \<rparr>"
  let ?c = "\<lparr> cache = [(js ''q'', ?e)], options = default_options, evictions = [] \<rparr>"
  have m: "map_of (cache ?c) (js ''q'') = Some ?e"
    by simp
  have u: "data ?e = Undefined" by simp
  have x: "\<not> isExpired ?c 2000 ?e"
    by (simp add: isExpired_def default_options_def)
  from getOrSet_stored_undefined[OF m u x, of "\<lambda>u. Resolved (Value 7)" 2005 "Value 7"]
  show ?thesis
    by (simp add: getOrSet_def get_def isExpired_def set'_def default_options_def
        delete_def Map_delete_def Map_has_def Let_def)
qed

lemma delete_cache [simp]: "cache (snd (delete c key)) = Map_delete (cache c) key"
  by (simp add: delete_def Let_def split: option.splits)

lemma delete_options [simp]: "options (snd (delete c key)) = options c"
  by (simp add: delete_def Let_def split: option.splits)

lemma evictLRU_loop_key:
  "fst (evictLRU_loop (lruKey, lruEntry) m) = lruKey
   \<or> fst (evictLRU_loop (lruKey, lruEntry) m) \<in> Some ` fst ` set m"
proof (induction m arbitrary: lruKey lruEntry)
  case Nil
  then show ?case by simp
next
  case (Cons p m)
  obtain key entry where p: "p = (key, entry)" by (cases p)
  show ?case
    using Cons.IH[of "Some key" "Some entry"] Cons.IH[of lruKey lruEntry]
    by (auto simp: p)
qed

lemma evictLRU_loop_selects:
  "m \<noteq> [] \<Longrightarrow> fst (evictLRU_loop (None, None) m) \<in> Some ` fst ` set m"
proof (cases m)
  case Nil
  assume "m \<noteq> []"
  with Nil show ?thesis by simp
next
  case (Cons p rest)
  obtain key entry where p: "p = (key, entry)" by (cases p)
  show ?thesis
    using evictLRU_loop_key[of "Some key" "Some entry" rest]
    by (auto simp: Cons p)
qed

text \<open>
  The entry the loop settles on has the fewest hits, and the earliest timestamp among
  those with that many hits.
\<close>

lemma evictLRU_loop_least:
  assumes "evictLRU_loop (lruKey, lruEntry) m = (Some k, Some e)"
    and "(k', e') \<in> set m \<or> lruEntry = Some e'"
  shows "hits e < hits e' \<or> (hits e = hits e' \<and> timestamp e \<le> timestamp e')"
  using assms
proof (induction m arbitrary: lruKey lruEntry k' e')
  case Nil
  then show ?case by auto
next
  case (Cons p m)
  obtain key entry where p: "p = (key, entry)" by (cases p)
  let ?take = "case lruEntry of None \<Rightarrow> True
     | Some lru \<Rightarrow> hits entry < hits lru \<or> (hits entry = hits lru \<and> timestamp entry < timestamp lru)"
  show ?case
  proof (cases ?take)
    case True
    then have run: "evictLRU_loop (Some key, Some entry) m = (Some k, Some e)"
      using Cons.prems(1) by (simp add: p)
    have sel: "hits e < hits entry \<or> (hits e = hits entry \<and> timestamp e \<le> timestamp entry)"
      using Cons.IH[OF run, of k' entry] by simp
    from Cons.prems(2) consider "(k', e') \<in> set m" | "e' = entry" | "lruEntry = Some e'"
      by (auto simp: p)
    then show ?thesis
    proof cases
      case 1
      then show ?thesis using Cons.IH[OF run, of k' e'] by simp
    next
      case 2
      then show ?thesis using sel by simp
    next
      case 3
      then show ?thesis using True sel by auto
    qed
  next
    case False
    then have run: "evictLRU_loop (lruKey, lruEntry) m = (Some k, Some e)"
      using Cons.prems(1) by (simp add: p)
    from False obtain lru where lru: "lruEntry = Some lru" by (cases lruEntry) auto
    have sel: "hits e < hits lru \<or> (hits e = hits lru \<and> timestamp e \<le> timestamp lru)"
      using Cons.IH[OF run, of k' lru] lru by simp
    from Cons.prems(2) consider "(k', e') \<in> set m" | "e' = entry" | "lruEntry = Some e'"
      by (auto simp: p)
    then show ?thesis
    proof cases
      case 1
      then show ?thesis using Cons.IH[OF run, of k' e'] by simp
    next
      case 2
      then show ?thesis using False sel lru by auto
    next
      case 3
      then show ?thesis using Cons.IH[OF run, of k' e'] by simp
    qed
  qed
qed

lemma evictLRU_options [simp]: "options (evictLRU c) = options c"
  by (simp add: evictLRU_def split: option.splits)

lemma evictLRU_keys: "fst ` set (cache (evictLRU c)) \<subseteq> fst ` set (cache c)"
  by (auto simp: evictLRU_def keys_Map_delete split: option.splits)

lemma evictLRU_length:
  assumes "cache c \<noteq> []" and "[] \<notin> fst ` set (cache c)"
  shows "length (cache (evictLRU c)) < length (cache c)"
proof -
  from evictLRU_loop_selects[OF assms(1)]
  obtain k where k: "fst (evictLRU_loop (None, None) (cache c)) = Some k" "k \<in> fst ` set (cache c)"
    by auto
  from k(2) assms(2) have "k \<noteq> []" by blast
  with k(1) have "evictLRU c = snd (delete c k)"
    by (simp add: evictLRU_def)
  then show ?thesis
    using k(2) by (simp add: length_Map_delete_has Map_has_keys)
qed

lemma set'_options [simp]: "options (set' c key d now) = options c"
  by (simp add: set'_def Let_def)

lemma set'_keys:
  "fst ` set (cache (set' c key d now)) \<subseteq> insert key (fst ` set (cache c))"
  using evictLRU_keys[of c] by (auto simp: set'_def Let_def keys_Map_set)

lemma set'_length:
  assumes "maxSize (options c) = Finite (real n)"
    and "1 \<le> n"
    and "length (cache c) \<le> n"
    and "[] \<notin> fst ` set (cache c)"
  shows "length (cache (set' c key d now)) \<le> n"
proof (cases "Map_has (cache c) key")
  case True
  then show ?thesis using assms(3) by (simp add: set'_def length_Map_set)
next
  case False
  show ?thesis
  proof (cases "size_ge (length (cache c)) (maxSize (options c))")
    case full: True
    then have "n \<le> length (cache c)" using assms(1) by simp
    with assms(2) have ne: "cache c \<noteq> []" by auto
    have "\<not> Map_has (cache (evictLRU c)) key"
      using False evictLRU_keys[of c] by (auto simp: Map_has_keys)
    then show ?thesis
      using False full assms(3) evictLRU_length[OF ne assms(4)]
      by (simp add: set'_def length_Map_set Let_def)
  next
    case room: False
    then have "length (cache c) < n" using assms(1) by simp
    then show ?thesis using False room by (simp add: set'_def length_Map_set Let_def)
  qed
qed

lemma delete_shrinks:
  "options (snd (delete c key)) = options c
   \<and> length (cache (snd (delete c key))) \<le> length (cache c)
   \<and> fst ` set (cache (snd (delete c key))) \<subseteq> fst ` set (cache c)"
  by (simp add: length_Map_delete keys_Map_delete)

lemma get_shrinks:
  "options (snd (get c key now)) = options c
   \<and> length (cache (snd (get c key now))) \<le> length (cache c)
   \<and> fst ` set (cache (snd (get c key now))) \<subseteq> fst ` set (cache c)"
proof (cases "map_of (cache c) key")
  case None
  then show ?thesis by (simp add: get_def)
next
  case (Some entry)
  then have h: "Map_has (cache c) key" by (simp add: Map_has_def)
  then have k: "key \<in> fst ` set (cache c)" by (simp add: Map_has_keys)
  show ?thesis
  proof (cases "isExpired c now entry")
    case True
    then show ?thesis using Some delete_shrinks[of c key] by (simp add: get_def)
  next
    case False
    then show ?thesis
      using Some h k by (simp add: get_def length_Map_set keys_Map_set insert_absorb)
  qed
qed

lemma has_shrinks:
  "options (snd (has c key now)) = options c
   \<and> length (cache (snd (has c key now))) \<le> length (cache c)
   \<and> fst ` set (cache (snd (has c key now))) \<subseteq> fst ` set (cache c)"
  using delete_shrinks[of c key] by (simp add: has_def split: option.splits)

lemma clear_shrinks:
  "options (clear c) = options c
   \<and> length (cache (clear c)) \<le> length (cache c)
   \<and> fst ` set (cache (clear c)) \<subseteq> fst ` set (cache c)"
  by (simp add: clear_def Let_def)

lemma invalidatePattern_loop_shrinks:
  "options (snd (invalidatePattern_loop pattern (count, c) ks)) = options c
   \<and> length (cache (snd (invalidatePattern_loop pattern (count, c) ks))) \<le> length (cache c)
   \<and> fst ` set (cache (snd (invalidatePattern_loop pattern (count, c) ks))) \<subseteq> fst ` set (cache c)"
proof (induction ks arbitrary: count c)
  case Nil
  then show ?case by simp
next
  case (Cons k ks)
  show ?case
  proof (cases "pattern k")
    case True
    let ?c' = "snd (delete c k)"
    let ?r = "snd (invalidatePattern_loop pattern (count + 1, ?c') ks)"
    note ih = Cons.IH[of "count + 1" ?c'] and d = delete_shrinks[of c k]
    have "options ?r = options c" using ih d by simp
    moreover have "length (cache ?r) \<le> length (cache c)"
      using ih d by (meson order_trans)
    moreover have "fst ` set (cache ?r) \<subseteq> fst ` set (cache c)"
      using ih d by (meson subset_trans)
    ultimately show ?thesis using True by simp
  next
    case False
    then show ?thesis using Cons.IH[of count c] by simp
  qed
qed

lemma prune_loop_shrinks:
  "options (snd (prune_loop now (count, c) es)) = options c
   \<and> length (cache (snd (prune_loop now (count, c) es))) \<le> length (cache c)
   \<and> fst ` set (cache (snd (prune_loop now (count, c) es))) \<subseteq> fst ` set (cache c)"
proof (induction es arbitrary: count c)
  case Nil
  then show ?case by simp
next
  case (Cons p es)
  obtain k e where p: "p = (k, e)" by (cases p)
  show ?case
  proof (cases "isExpired c now e")
    case True
    let ?c' = "snd (delete c k)"
    let ?r = "snd (prune_loop now (count + 1, ?c') es)"
    note ih = Cons.IH[of "count + 1" ?c'] and d = delete_shrinks[of c k]
    have "options ?r = options c" using ih d by simp
    moreover have "length (cache ?r) \<le> length (cache c)"
      using ih d by (meson order_trans)
    moreover have "fst ` set (cache ?r) \<subseteq> fst ` set (cache c)"
      using ih d by (meson subset_trans)
    ultimately show ?thesis using True by (simp add: p)
  next
    case False
    then show ?thesis using Cons.IH[of count c] by (simp add: p)
  qed
qed

lemma invalidatePattern_shrinks:
  "options (snd (invalidatePattern c pattern)) = options c
   \<and> length (cache (snd (invalidatePattern c pattern))) \<le> length (cache c)
   \<and> fst ` set (cache (snd (invalidatePattern c pattern))) \<subseteq> fst ` set (cache c)"
  unfolding invalidatePattern_def by (rule invalidatePattern_loop_shrinks)

lemma prune_shrinks:
  "options (snd (prune c now)) = options c
   \<and> length (cache (snd (prune c now))) \<le> length (cache c)
   \<and> fst ` set (cache (snd (prune c now))) \<subseteq> fst ` set (cache c)"
  unfolding prune_def by (rule prune_loop_shrinks)

lemma shrinks_within_capacity:
  assumes "options c' = options c \<and> length (cache c') \<le> length (cache c)
      \<and> fst ` set (cache c') \<subseteq> fst ` set (cache c)"
    and "length (cache c) \<le> n"
    and "[] \<notin> fst ` set (cache c)"
  shows "options c' = options c \<and> length (cache c') \<le> n \<and> [] \<notin> fst ` set (cache c')"
proof -
  have "[] \<notin> fst ` set (cache c')" using assms(1,3) by blast
  moreover have "length (cache c') \<le> n" using assms(1,2) by linarith
  ultimately show ?thesis using assms(1) by simp
qed

lemma set'_within_capacity:
  assumes "maxSize (options c) = Finite (real n)"
    and "1 \<le> n"
    and "length (cache c) \<le> n"
    and "[] \<notin> fst ` set (cache c)"
    and "key \<noteq> []"
  shows "options (set' c key d now) = options c
    \<and> length (cache (set' c key d now)) \<le> n
    \<and> [] \<notin> fst ` set (cache (set' c key d now))"
proof -
  have "[] \<notin> fst ` set (cache (set' c key d now))"
    using set'_keys[of c key d now] assms(4,5) by blast
  then show ?thesis using set'_length[OF assms(1-4), of key d now] by simp
qed

lemma apply_operation_within_capacity:
  assumes "maxSize (options c) = Finite (real n)"
    and "1 \<le> n"
    and "length (cache c) \<le> n"
    and "[] \<notin> fst ` set (cache c)"
    and "stored_key operation \<noteq> Some []"
  shows "options (apply_operation c operation) = options c
    \<and> length (cache (apply_operation c operation)) \<le> n
    \<and> [] \<notin> fst ` set (cache (apply_operation c operation))"
proof (cases operation)
  case (Get key now)
  then show ?thesis
    using shrinks_within_capacity[OF get_shrinks[of c key now] assms(3,4)] by simp
next
  case (Set key d now)
  then show ?thesis
    using set'_within_capacity[OF assms(1-4), of key d now] assms(5) by simp
next
  case (Has key now)
  then show ?thesis
    using shrinks_within_capacity[OF has_shrinks[of c key now] assms(3,4)] by simp
next
  case (Delete key)
  then show ?thesis
    using shrinks_within_capacity[OF delete_shrinks[of c key] assms(3,4)] by simp
next
  case Clear
  then show ?thesis
    using shrinks_within_capacity[OF clear_shrinks[of c] assms(3,4)] by simp
next
  case (GetOrSet key factory now now')
  let ?c1 = "snd (get c key now)"
  note g = shrinks_within_capacity[OF get_shrinks[of c key now] assms(3,4)]
  have key: "key \<noteq> []" using assms(5) GetOrSet by simp
  have c1: "maxSize (options ?c1) = Finite (real n)" "1 \<le> n" "length (cache ?c1) \<le> n"
    "[] \<notin> fst ` set (cache ?c1)"
    using g assms(1,2) by simp_all
  have s: "options (set' ?c1 key d now') = options c
      \<and> length (cache (set' ?c1 key d now')) \<le> n
      \<and> [] \<notin> fst ` set (cache (set' ?c1 key d now'))" for d
    using set'_within_capacity[OF c1 key, of d now'] g by simp
  have r: "apply_operation c operation = ?c1
      \<or> (\<exists>d. apply_operation c operation = set' ?c1 key d now')"
    by (auto simp: GetOrSet getOrSet_def Let_def split: prod.splits outcome.splits)
  then show ?thesis
  proof
    assume "apply_operation c operation = ?c1"
    then show ?thesis using g by simp
  next
    assume "\<exists>d. apply_operation c operation = set' ?c1 key d now'"
    then obtain d where "apply_operation c operation = set' ?c1 key d now'" ..
    then show ?thesis using s[of d] by simp
  qed
next
  case (InvalidatePattern pattern)
  then show ?thesis
    using shrinks_within_capacity[OF invalidatePattern_shrinks[of c pattern] assms(3,4)] by simp
next
  case (Prune now)
  then show ?thesis
    using shrinks_within_capacity[OF prune_shrinks[of c now] assms(3,4)] by simp
qed

lemma Map_set_new: "\<not> Map_has m key \<Longrightarrow> Map_set m key entry = m @ [(key, entry)]"
  by (induction m) (auto simp: Map_has_def)

lemma run_within_capacity:
  assumes "maxSize (options c) = Finite (real n)"
    and "1 \<le> n"
    and "length (cache c) \<le> n"
    and "[] \<notin> fst ` set (cache c)"
    and "Some [] \<notin> set (map stored_key operations)"
  shows "options (run c operations) = options c
    \<and> length (cache (run c operations)) \<le> n
    \<and> [] \<notin> fst ` set (cache (run c operations))"
  using assms
proof (induction operations arbitrary: c)
  case Nil
  then show ?case by simp
next
  case (Cons operation operations)
  have k: "stored_key operation \<noteq> Some []" using Cons.prems(5) by auto
  note step = apply_operation_within_capacity[OF Cons.prems(1-4) k]
  have "options (run (apply_operation c operation) operations) = options (apply_operation c operation)
      \<and> length (cache (run (apply_operation c operation) operations)) \<le> n
      \<and> [] \<notin> fst ` set (cache (run (apply_operation c operation) operations))"
    using Cons.IH[of "apply_operation c operation"] step Cons.prems(1,2,5) by auto
  then show ?case using step by simp
qed

text \<open>
  What \<open>set\<close> does to the map. At capacity with a new key, the entry \<open>evictLRU\<close>
  settles on (see \<open>evictLRU_loop_least\<close>) is deleted before the insertion when its key is
  not the empty string; with a key already present, or below capacity, nothing is deleted.
\<close>

lemma set'_evicts:
  assumes "size_ge (length (cache c)) (maxSize (options c))"
    and "\<not> Map_has (cache c) key"
    and "evictLRU_loop (None, None) (cache c) = (Some k, Some e)"
    and "k \<noteq> []"
  shows "cache (set' c key d now)
           = Map_delete (cache c) k @ [(key, \<lparr> data = d, timestamp = now, hits = 0 \<rparr>)]"
proof -
  have "\<not> Map_has (Map_delete (cache c) k) key"
    using assms(2) by (simp add: Map_has_keys keys_Map_delete)
  then show ?thesis
    using assms by (simp add: set'_def evictLRU_def Let_def Map_set_new)
qed

lemma set'_keeps:
  assumes "Map_has (cache c) key \<or> \<not> size_ge (length (cache c)) (maxSize (options c))"
  shows "cache (set' c key d now)
           = Map_set (cache c) key \<lparr> data = d, timestamp = now, hits = 0 \<rparr>
    \<and> evictions (set' c key d now) = evictions c"
  using assms by (auto simp: set'_def Let_def)

text \<open>
  C3, as stated, fails for a maximum size of 0 and for one that is not a whole number:
  \<open>set\<close> always inserts, so a new cache of maximum size 0 holds one entry after the
  first call; and with the maximum size 1.5 a cache of one entry is not at capacity, so
  it holds two entries after the second call.
\<close>

theorem cache_size_counterexample:
  "\<not> size_le (size' (set' (new_QueryCache \<lparr> maxSize = Finite 0, ttlMs = 300000, onEvict = False \<rparr>)
                   (js ''a'') (Value (1::nat)) 0))
        (Finite 0)
   \<and> \<not> size_le (size' (run (new_QueryCache \<lparr> maxSize = Finite (3 / 2), ttlMs = 300000,
                                             onEvict = False \<rparr>)
                   [Set (js ''a'') (Value (1::nat)) 0, Set (js ''b'') (Value 2) 1]))
          (Finite (3 / 2))"
  by (simp add: size'_def set'_def new_QueryCache_def evictLRU_def Map_has_def Let_def js_def)

text \<open>
  C3, amended. With a maximum size that is a whole number of at least 1, after any
  sequence of operations on a new cache that stores nothing under the empty string, and
  after a \<open>set\<close> of a non-empty key that follows it, the cache holds at most the maximum
  number of entries.
\<close>

theorem cache_size_within_maximum:
  assumes "maxSize opts = Finite (real n)"
    and "1 \<le> n"
    and "Some [] \<notin> set (map stored_key operations)"
    and "key \<noteq> []"
  shows "size_le (size' (run (new_QueryCache opts) operations)) (maxSize opts)
    \<and> size_le (size' (set' (run (new_QueryCache opts) operations) key d now)) (maxSize opts)"
proof -
  let ?c = "new_QueryCache opts :: 'a QueryCache"
  have o: "options ?c = opts" by (simp add: new_QueryCache_def)
  have i: "maxSize (options ?c) = Finite (real n)" "length (cache ?c) \<le> n"
    "[] \<notin> fst ` set (cache ?c)"
    using assms(1) by (simp_all add: new_QueryCache_def)
  note r = run_within_capacity[OF i(1) assms(2) i(2,3) assms(3), unfolded o]
  have m: "maxSize (options (run ?c operations)) = Finite (real n)"
    using r assms(1) by simp
  from set'_within_capacity[OF m assms(2) _ _ assms(4), of d now] r
  have "length (cache (set' (run ?c operations) key d now)) \<le> n"
    by simp
  then show ?thesis using r assms(1) by (simp add: size'_def)
qed

theorem cache_size_within_maximum_witness:
  "maxSize \<lparr> maxSize = Finite 2, ttlMs = 300000, onEvict = False \<rparr> = Finite (real 2)
   \<and> (1::nat) \<le> 2
   \<and> Some [] \<notin> set (map stored_key
        [Set (js ''a'') (Value (1::nat)) 0, Set (js ''b'') (Value 2) 1, Get (js ''a'') 2])
   \<and> js ''c'' \<noteq> []
   \<and> keys (set' (run (new_QueryCache \<lparr> maxSize = Finite 2, ttlMs = 300000, onEvict = False \<rparr>)
        [Set (js ''a'') (Value (1::nat)) 0, Set (js ''b'') (Value 2) 1, Get (js ''a'') 2])
        (js ''c'') (Value 3) 3) = [js ''a'', js ''c'']
   \<and> size_le (size' (set' (run (new_QueryCache \<lparr> maxSize = Finite 2, ttlMs = 300000,
                                                onEvict = False \<rparr>)
        [Set (js ''a'') (Value (1::nat)) 0, Set (js ''b'') (Value 2) 1, Get (js ''a'') 2])
        (js ''c'') (Value 3) 3)) (Finite 2)"
proof -
  let ?opts = "\<lparr> maxSize = Finite 2, ttlMs = 300000, onEvict = False \<rparr>"
  let ?ops = "[Set (js ''a'') (Value (1::nat)) 0, Set (js ''b'') (Value 2) 1, Get (js ''a'') 2]"
  have a: "maxSize ?opts = Finite (real 2)" by simp
  have n: "(1::nat) \<le> 2" by simp
  have b: "Some [] \<notin> set (map stored_key ?ops)" by (simp add: js_def)
  have c: "js ''c'' \<noteq> []" by (simp add: js_def)
  have k: "keys (set' (run (new_QueryCache ?opts) ?ops) (js ''c'') (Value 3) 3)
             = [js ''a'', js ''c'']"
    by (simp add: keys_def set'_def get_def isExpired_def new_QueryCache_def evictLRU_def
        delete_def Map_has_def Map_delete_def Let_def js_def)
  from cache_size_within_maximum[OF a n b c, of "Value 3" 3] show ?thesis
    using b c k by simp
qed

text \<open>
  C2 at the failing input: a cache of maximum size 1 that holds an entry under the empty
  string is at capacity; \<open>set\<close> of the new key \<open>a\<close> selects that entry, the only one,
  and does not delete it, so both entries are present afterwards and nothing was evicted.
\<close>

theorem evictLRU_keeps_empty_key:
  "run (new_QueryCache \<lparr> maxSize = Finite 1, ttlMs = 300000, onEvict = True \<rparr>)
       [Set [] (Value (1::nat)) 0, Set (js ''a'') (Value 2) 1]
     = \<lparr> cache = [([], \<lparr> data = Value 1, timestamp = 0, hits = 0 \<rparr>),
                  (js ''a'', \<lparr> data = Value 2, timestamp = 1, hits = 0 \<rparr>)],
         options = \<lparr> maxSize = Finite 1, ttlMs = 300000, onEvict = True \<rparr>,
         evictions = [] \<rparr>"
  by (simp add: set'_def new_QueryCache_def evictLRU_def Map_has_def Let_def js_def)

end
